theory Spec2Isabelle
  imports Complex_Main "HOL-Library.Char_ord" "HOL-Library.Multiset"
begin

section \<open>TexTra: text statistics, fallback summarizer and topic extraction\<close>

text \<open>
  The functions of \<^verbatim>\<open>app.py\<close> modelled here are \<^verbatim>\<open>analyze_text\<close>,
  \<^verbatim>\<open>split_into_sentences\<close>, \<^verbatim>\<open>fallback_summarize\<close>, \<^verbatim>\<open>summarize_text\<close> and
  \<^verbatim>\<open>extract_topics\<close>. A text is a \<^typ>\<open>string\<close> whose characters are read as ASCII code
  points: the character classes below are Python's \<^verbatim>\<open>str.isspace\<close>, the regular
  expression classes \<^verbatim>\<open>\s\<close>, \<^verbatim>\<open>\w\<close>, \<^verbatim>\<open>[A-Z]\<close>, \<^verbatim>\<open>[a-z]\<close> and \<^verbatim>\<open>str.lower\<close> on
  the code points below 128. Python integers are \<^typ>\<open>int\<close>, the value of a Python
  float is a \<^typ>\<open>rat\<close>.
\<close>

subsection \<open>Python string primitives\<close>

definition is_space :: "char \<Rightarrow> bool" where
  \<comment> \<open>\<^verbatim>\<open>str.isspace\<close> and \<^verbatim>\<open>\s\<close>: TAB, LF, VT, FF, CR, FS, GS, RS, US, space.\<close>
  "is_space c \<longleftrightarrow>
     c \<in> set [CHR 0x09, CHR 0x0A, CHR 0x0B, CHR 0x0C, CHR 0x0D,
               CHR 0x1C, CHR 0x1D, CHR 0x1E, CHR 0x1F, CHR 0x20]"

definition is_upper :: "char \<Rightarrow> bool" where
  \<comment> \<open>\<^verbatim>\<open>[A-Z]\<close>\<close>
  "is_upper c \<longleftrightarrow> CHR ''A'' \<le> c \<and> c \<le> CHR ''Z''"

definition is_lower :: "char \<Rightarrow> bool" where
  \<comment> \<open>\<^verbatim>\<open>[a-z]\<close>\<close>
  "is_lower c \<longleftrightarrow> CHR ''a'' \<le> c \<and> c \<le> CHR ''z''"

definition is_digit :: "char \<Rightarrow> bool" where
  "is_digit c \<longleftrightarrow> CHR ''0'' \<le> c \<and> c \<le> CHR ''9''"

definition is_word :: "char \<Rightarrow> bool" where
  \<comment> \<open>\<^verbatim>\<open>\w\<close>: alphanumeric or underscore.\<close>
  "is_word c \<longleftrightarrow> is_upper c \<or> is_lower c \<or> is_digit c \<or> c = CHR ''_''"

definition lower_char :: "char \<Rightarrow> char" where
  "lower_char c = (if is_upper c then char_of (of_char c + (32::nat)) else c)"

definition lower :: "string \<Rightarrow> string" where
  \<comment> \<open>\<^verbatim>\<open>str.lower()\<close>\<close>
  "lower s = map lower_char s"

fun split_ws :: "string \<Rightarrow> string \<Rightarrow> string list" where
  "split_ws cur [] = (if cur = [] then [] else [rev cur])"
| "split_ws cur (c # cs) =
     (if is_space c
      then (if cur = [] then split_ws [] cs else rev cur # split_ws [] cs)
      else split_ws (c # cur) cs)"

definition py_split :: "string \<Rightarrow> string list" where
  \<comment> \<open>\<^verbatim>\<open>str.split()\<close> without arguments: the maximal runs of non-whitespace characters;
      \<open>cur\<close> in \<^const>\<open>split_ws\<close> is the current run, reversed.\<close>
  "py_split s = split_ws [] s"

definition py_strip :: "string \<Rightarrow> string" where
  \<comment> \<open>\<^verbatim>\<open>str.strip()\<close>\<close>
  "py_strip s = rev (dropWhile is_space (rev (dropWhile is_space s)))"

fun py_join :: "string \<Rightarrow> string list \<Rightarrow> string" where
  \<comment> \<open>\<^verbatim>\<open>sep.join(xs)\<close>\<close>
  "py_join sep [] = []"
| "py_join sep [x] = x"
| "py_join sep (x # y # ys) = x @ sep @ py_join sep (y # ys)"

fun re_split_class :: "(char \<Rightarrow> bool) \<Rightarrow> string \<Rightarrow> string \<Rightarrow> string list" where
  \<comment> \<open>\<^verbatim>\<open>re.split\<close> on a one-character class: every matching character ends a
      piece; pieces may be empty.\<close>
  "re_split_class P cur [] = [rev cur]"
| "re_split_class P cur (c # cs) =
     (if P c then rev cur # re_split_class P [] cs else re_split_class P (c # cur) cs)"

definition strip_punct :: "string \<Rightarrow> string" where
  \<comment> \<open>\<^verbatim>\<open>re.sub(r'[^\w\s]', '', s)\<close>\<close>
  "strip_punct s = filter (\<lambda>c. is_word c \<or> is_space c) s"

definition py_sorted :: "('a \<Rightarrow> 'k::linorder) \<Rightarrow> bool \<Rightarrow> 'a list \<Rightarrow> 'a list" where
  \<comment> \<open>\<^verbatim>\<open>sorted(xs, key=key, reverse=reverse)\<close>: a stable sort; with \<^verbatim>\<open>reverse=True\<close> the
      list is reversed, sorted and reversed again, so equal keys keep their order.\<close>
  "py_sorted key reverse xs =
     (if reverse then rev (sort_key key (rev xs)) else sort_key key xs)"

definition py_slice_to :: "int \<Rightarrow> 'a list \<Rightarrow> 'a list" where
  \<comment> \<open>\<^verbatim>\<open>xs[:n]\<close>; a negative \<open>n\<close> counts from the end.\<close>
  "py_slice_to n xs =
     (if 0 \<le> n then take (nat n) xs else take (length xs - nat (- n)) xs)"

subsection \<open>\<^verbatim>\<open>collections.Counter\<close>\<close>

text \<open>
  A \<^verbatim>\<open>Counter\<close> is a dictionary that keeps insertion order: an association list with
  distinct keys, a new key appended at the end.
\<close>

type_synonym 'a counter = "('a \<times> int) list"

fun counter_incr :: "'a \<Rightarrow> 'a counter \<Rightarrow> 'a counter" where
  \<comment> \<open>\<^verbatim>\<open>c[w] += 1\<close>\<close>
  "counter_incr w [] = [(w, 1)]"
| "counter_incr w ((k, n) # d) =
     (if k = w then (k, n + 1) # d else (k, n) # counter_incr w d)"

fun counter_update :: "'a counter \<Rightarrow> 'a list \<Rightarrow> 'a counter" where
  "counter_update d [] = d"
| "counter_update d (w # ws) = counter_update (counter_incr w d) ws"

definition Counter :: "'a list \<Rightarrow> 'a counter" where
  \<comment> \<open>\<^verbatim>\<open>Counter(words)\<close>\<close>
  "Counter ws = counter_update [] ws"

definition counter_get :: "'a counter \<Rightarrow> 'a \<Rightarrow> int" where
  \<comment> \<open>\<^verbatim>\<open>c[w]\<close>: a missing key reads as 0\<close>
  "counter_get d w = (case map_of d w of None \<Rightarrow> 0 | Some n \<Rightarrow> n)"

definition most_common :: "int \<Rightarrow> 'a counter \<Rightarrow> 'a counter" where
  \<comment> \<open>\<^verbatim>\<open>Counter.most_common(n)\<close> is \<^verbatim>\<open>heapq.nlargest(n, items, key=count)\<close>: the first
      \<open>n\<close> items of the stable descending sort, and no item when \<open>n \<le> 0\<close>.\<close>
  "most_common n d = take (nat n) (py_sorted snd True d)"

subsection \<open>\<^verbatim>\<open>analyze_text\<close>\<close>

record analysis =
  total_words :: int
  total_characters :: int
  total_sentences :: int
  single_word_repeated :: int
  double_word_repeated :: int
  triple_word_repeated :: int

definition count_values :: "int \<Rightarrow> 'a counter \<Rightarrow> int" where
  \<comment> \<open>\<^verbatim>\<open>sum(1 for count in word_freq.values() if count == k)\<close>\<close>
  "count_values k d = int (length (filter (\<lambda>count. count = k) (map snd d)))"

definition analyze_words :: "string \<Rightarrow> string list" where
  "analyze_words text = map lower (py_split text)"

definition analyze_text :: "string \<Rightarrow> analysis" where
  "analyze_text text =
     (let char_count = int (length text);
          words = analyze_words text;
          word_count = int (length words);
          sentences = re_split_class (\<lambda>c. c \<in> set ''.!?'') [] text;
          sentences = filter (\<lambda>s. py_strip s \<noteq> []) sentences;
          sentences = map py_strip sentences;
          sentence_count = int (length sentences);
          word_freq = Counter words
      in \<lparr> total_words = word_count,
           total_characters = char_count,
           total_sentences = sentence_count,
           single_word_repeated = count_values 2 word_freq,
           double_word_repeated = count_values 3 word_freq,
           triple_word_repeated = count_values 4 word_freq \<rparr>)"

subsection \<open>\<^verbatim>\<open>extract_topics\<close>\<close>

definition stop_words :: "string set" where
  "stop_words = set [
    ''the'', ''and'', ''is'', ''in'', ''of'', ''for'', ''a'', ''an'', ''to'', ''with'',
    ''on'', ''at'', ''by'', ''from'', ''as'', ''are'', ''be'', ''this'', ''that'', ''it'',
    ''they'', ''we'', ''you'', ''he'', ''she'', ''them'', ''his'', ''her'', ''its'', ''their'',
    ''our'', ''your'', ''my'', ''mine'', ''yours'', ''ours'', ''theirs'', ''him'', ''hers'',
    ''us'', ''me'', ''i'', ''have'', ''has'', ''had'', ''do'', ''does'', ''did'', ''can'',
    ''could'', ''may'', ''might'', ''must'', ''will'', ''would'', ''should'', ''am'',
    ''are'', ''was'', ''were'', ''been'', ''being'', ''get'', ''gets'', ''got'', ''getting'']"

definition qualifies :: "string \<Rightarrow> bool" where
  \<comment> \<open>\<^verbatim>\<open>word not in stop_words and len(word) > 2\<close>\<close>
  "qualifies word \<longleftrightarrow> word \<notin> stop_words \<and> length word > 2"

definition topic_words :: "string \<Rightarrow> string list" where
  "topic_words text = py_split (strip_punct (lower text))"

definition extract_topics :: "string \<Rightarrow> int \<Rightarrow> string list" where
  "extract_topics text num_topics =
     (let words = topic_words text;
          word_freq = Counter words;
          filtered_word_freq = filter (\<lambda>(word, freq). qualifies word) word_freq;
          top_topics = most_common num_topics filtered_word_freq
      in map fst top_topics)"

subsection \<open>\<^verbatim>\<open>split_into_sentences\<close>\<close>

text \<open>
  The pattern is \<^verbatim>\<open>(?<!\w\.\w.)(?<![A-Z][a-z]\.)(?<=\.|\?|\!)\s\<close>: one whitespace
  character, matched where the three look-behind assertions hold of the text before
  it. In the definitions below \<open>prev\<close> is that text reversed, so its head is the
  character just before the candidate.
\<close>

definition behind_terminator :: "string \<Rightarrow> bool" where
  \<comment> \<open>\<^verbatim>\<open>(?<=\.|\?|\!)\<close>\<close>
  "behind_terminator prev =
     (case prev of c1 # _ \<Rightarrow> c1 = CHR ''.'' \<or> c1 = CHR ''?'' \<or> c1 = CHR ''!'' | _ \<Rightarrow> False)"

definition behind_title :: "string \<Rightarrow> bool" where
  \<comment> \<open>the body of \<^verbatim>\<open>(?<![A-Z][a-z]\.)\<close>\<close>
  "behind_title prev =
     (case prev of c1 # c2 # c3 # _ \<Rightarrow> is_upper c3 \<and> is_lower c2 \<and> c1 = CHR ''.''
      | _ \<Rightarrow> False)"

definition behind_abbrev :: "string \<Rightarrow> bool" where
  \<comment> \<open>the body of \<^verbatim>\<open>(?<!\w\.\w.)\<close>; the last \<^verbatim>\<open>.\<close> is any character but a newline\<close>
  "behind_abbrev prev =
     (case prev of c1 # c2 # c3 # c4 # _ \<Rightarrow>
        is_word c4 \<and> c3 = CHR ''.'' \<and> is_word c2 \<and> c1 \<noteq> CHR 0x0A
      | _ \<Rightarrow> False)"

definition is_boundary :: "string \<Rightarrow> char \<Rightarrow> bool" where
  "is_boundary prev c \<longleftrightarrow>
     \<not> behind_abbrev prev \<and> \<not> behind_title prev \<and> behind_terminator prev \<and> is_space c"

fun re_split_sentences :: "string \<Rightarrow> string \<Rightarrow> string \<Rightarrow> string list" where
  \<comment> \<open>\<^verbatim>\<open>re.split\<close> with that pattern; \<open>cur\<close> is the current piece, reversed.\<close>
  "re_split_sentences prev cur [] = [rev cur]"
| "re_split_sentences prev cur (c # cs) =
     (if is_boundary prev c
      then rev cur # re_split_sentences (c # prev) [] cs
      else re_split_sentences (c # prev) (c # cur) cs)"

definition split_into_sentences :: "string \<Rightarrow> string list" where
  "split_into_sentences text =
     (let sentences = re_split_sentences [] [] text
      in map py_strip (filter (\<lambda>s. py_strip s \<noteq> []) sentences))"

subsection \<open>\<^verbatim>\<open>fallback_summarize\<close> and \<^verbatim>\<open>summarize_text\<close>\<close>

datatype error = ZeroDivisionError | LibraryError

definition py_truediv :: "(rat \<Rightarrow> rat) \<Rightarrow> int \<Rightarrow> int \<Rightarrow> error + rat" where
  \<comment> \<open>\<^verbatim>\<open>a / b\<close> on integers: the quotient as a float, \<open>to_float\<close> being the rounding
      to the nearest float; raises on a zero divisor.\<close>
  "py_truediv to_float a b =
     (if b = 0 then Inl ZeroDivisionError else Inr (to_float (of_int a / of_int b)))"

definition process_sentence :: "string \<Rightarrow> string" where
  \<comment> \<open>\<^verbatim>\<open>re.sub(r'[^\w\s]', '', s.lower())\<close>\<close>
  "process_sentence s = strip_punct (lower s)"

fun count_sentences :: "string counter \<Rightarrow> string list \<Rightarrow> string counter" where
  \<comment> \<open>the loop filling \<^verbatim>\<open>word_freq\<close>\<close>
  "count_sentences d [] = d"
| "count_sentences d (sentence # rest) =
     count_sentences (counter_update d (py_split sentence)) rest"

definition sentence_score :: "(rat \<Rightarrow> rat) \<Rightarrow> string counter \<Rightarrow> string \<Rightarrow> error + rat" where
  \<comment> \<open>the body of the scoring loop\<close>
  "sentence_score to_float word_freq sentence =
     (let score = sum_list (map (counter_get word_freq) (py_split sentence))
      in if length (py_split sentence) > 0
         then py_truediv to_float score (int (length (py_split sentence)))
         else Inr (of_int score))"

fun score_sentences ::
  "(rat \<Rightarrow> rat) \<Rightarrow> string counter \<Rightarrow> nat \<Rightarrow> string list \<Rightarrow> error + (nat \<times> rat) list" where
  \<comment> \<open>the scoring loop over \<^verbatim>\<open>enumerate(processed_sentences)\<close>, from index \<open>i\<close>\<close>
  "score_sentences to_float word_freq i [] = Inr []"
| "score_sentences to_float word_freq i (sentence # rest) =
     (case sentence_score to_float word_freq sentence of
        Inl e \<Rightarrow> Inl e
      | Inr score \<Rightarrow>
          (case score_sentences to_float word_freq (Suc i) rest of
             Inl e \<Rightarrow> Inl e
           | Inr scores \<Rightarrow> Inr ((i, score) # scores)))"

definition sentence_scores :: "(rat \<Rightarrow> rat) \<Rightarrow> string list \<Rightarrow> error + (nat \<times> rat) list" where
  \<comment> \<open>\<^verbatim>\<open>sentence_scores\<close> after the three loops, from the segmented sentences\<close>
  "sentence_scores to_float sentences =
     (let processed_sentences = map process_sentence sentences;
          word_freq = count_sentences [] processed_sentences
      in score_sentences to_float word_freq 0 processed_sentences)"

definition top_sentences ::
  "(rat \<Rightarrow> rat) \<Rightarrow> string list \<Rightarrow> int \<Rightarrow> error + (nat \<times> rat) list" where
  \<comment> \<open>\<^verbatim>\<open>top_sentences\<close> after the two sorts\<close>
  "top_sentences to_float sentences num_sentences =
     (case sentence_scores to_float sentences of
        Inl e \<Rightarrow> Inl e
      | Inr scores \<Rightarrow>
          Inr (py_sorted fst False
                 (py_slice_to num_sentences (py_sorted snd True scores))))"

definition fallback_summarize :: "(rat \<Rightarrow> rat) \<Rightarrow> string \<Rightarrow> int \<Rightarrow> error + string" where
  "fallback_summarize to_float text num_sentences =
     (let sentences = split_into_sentences text
      in if int (length sentences) \<le> num_sentences
         then Inr (py_join '' '' sentences)
         else (case top_sentences to_float sentences num_sentences of
                 Inl e \<Rightarrow> Inl e
               | Inr tops \<Rightarrow> Inr (py_join '' '' (map (\<lambda>(i, _). sentences ! i) tops))))"

definition summarize_text ::
  "(string \<Rightarrow> int \<Rightarrow> error + string list) \<Rightarrow> (rat \<Rightarrow> rat) \<Rightarrow> string \<Rightarrow> int \<Rightarrow> error + string"
  where
  \<comment> \<open>\<open>lsa\<close> stands for the library call in the \<^verbatim>\<open>try\<close> block (parser, tokenizer and
      \<^verbatim>\<open>LsaSummarizer\<close>): the sentences it selects, or an exception.\<close>
  "summarize_text lsa to_float text num_sentences =
     (case lsa text num_sentences of
        Inr summary \<Rightarrow> Inr (py_join '' '' summary)
      | Inl e \<Rightarrow> fallback_summarize to_float text num_sentences)"

subsection \<open>The primary strategy\<close>

text \<open>
  Modelled from the spec: the primary strategy of \<^verbatim>\<open>summarize_text\<close> is the library's
  \<^verbatim>\<open>PlaintextParser\<close>, \<^verbatim>\<open>Tokenizer\<close> and \<^verbatim>\<open>LsaSummarizer\<close>, whose code is not among the
  sources. The specification (4.3) says of it: it produces per-sentence importance
  scores by a decomposition, selects the N highest-scoring sentences and emits them in
  original document order; if N is at least the number of sentences the output is all
  sentences in original order with no scoring applied; a failure of the decomposition
  invokes the fallback. The library's sentence segmentation \<open>segment\<close> and its
  decomposition \<open>decompose\<close> (the importance of each sentence position, or a failure)
  are parameters.
\<close>

definition lsa_summarize ::
  "(string \<Rightarrow> string list) \<Rightarrow> (string list \<Rightarrow> error + (nat \<Rightarrow> rat))
     \<Rightarrow> string \<Rightarrow> int \<Rightarrow> error + string list" where
  \<comment> \<open>Modelled from the spec: section 4.3, in place of the library call.\<close>
  "lsa_summarize segment decompose text num_sentences =
     (let sentences = segment text
      in if int (length sentences) \<le> num_sentences
         then Inr sentences
         else (case decompose sentences of
                 Inl e \<Rightarrow> Inl e
               | Inr importance \<Rightarrow>
                   (let scored = map (\<lambda>i. (i, importance i)) [0..<length sentences];
                        best = take (nat num_sentences) (py_sorted snd True scored);
                        in_order = py_sorted fst False best
                    in Inr (map (\<lambda>(i, _). sentences ! i) in_order))))"

subsection \<open>Selections in document order\<close>

definition ordered_selection :: "'a list \<Rightarrow> nat list \<Rightarrow> bool" where
  \<comment> \<open>\<open>idxs\<close> are positions of \<open>sentences\<close>, strictly increasing\<close>
  "ordered_selection sentences idxs \<longleftrightarrow>
     sorted_wrt (<) idxs \<and> list_all (\<lambda>i. i < length sentences) idxs"

definition select :: "'a list \<Rightarrow> nat list \<Rightarrow> 'a list" where
  "select sentences idxs = map (\<lambda>i. sentences ! i) idxs"

subsection \<open>The scoring rule in the words of the specification\<close>

definition normalized_tokens :: "string \<Rightarrow> string list" where
  \<comment> \<open>the normalized tokens of a string: lower-cased, every character that is
      neither a word character nor whitespace stripped, split at whitespace\<close>
  "normalized_tokens s = py_split (strip_punct (lower s))"

definition global_frequency :: "string list \<Rightarrow> string \<Rightarrow> int" where
  \<comment> \<open>the number of occurrences of a token among the tokens of all sentences\<close>
  "global_frequency sentences t =
     int (count_list (concat (map normalized_tokens sentences)) t)"

definition score_spec :: "(rat \<Rightarrow> rat) \<Rightarrow> string list \<Rightarrow> string \<Rightarrow> rat" where
  \<comment> \<open>the sum of the global frequencies of the tokens, divided by the token count
      when that is positive\<close>
  "score_spec to_float sentences s =
     (let total = (\<Sum>t\<leftarrow>normalized_tokens s. global_frequency sentences t)
      in if 0 < length (normalized_tokens s)
         then to_float (of_int total / of_int (int (length (normalized_tokens s))))
         else of_int total)"

section \<open>Auxiliary lemmas\<close>

lemma keys_counter_incr:
  "map fst (counter_incr w d) = (if w \<in> fst ` set d then map fst d else map fst d @ [w])"
  by (induction w d rule: counter_incr.induct) (auto simp: image_iff)

lemma distinct_keys_counter_update:
  "distinct (map fst d) \<Longrightarrow> distinct (map fst (counter_update d ws))"
  by (induction ws arbitrary: d) (auto simp: keys_counter_incr)

lemma set_keys_counter_update:
  "fst ` set (counter_update d ws) = fst ` set d \<union> set ws"
proof (induction ws arbitrary: d)
  case Nil
  show ?case by simp
next
  case (Cons w ws)
  have "fst ` set (counter_incr w d) = insert w (fst ` set d)"
    using keys_counter_incr [of w d]
    by (metis (no_types, lifting) Un_insert_right insert_absorb list.set(1,2) set_append set_map sup_bot.right_neutral)
  with Cons.IH [of "counter_incr w d"] show ?case by auto
qed

lemma counter_get_incr:
  "counter_get (counter_incr w d) v = counter_get d v + (if v = w then 1 else 0)"
  by (induction w d rule: counter_incr.induct) (auto simp: counter_get_def)

lemma counter_get_update:
  "counter_get (counter_update d ws) v = counter_get d v + int (count_list ws v)"
  by (induction ws arbitrary: d) (auto simp: counter_get_incr)

lemma counter_get_count_sentences:
  "counter_get (count_sentences d ss) v
     = counter_get d v + int (count_list (concat (map py_split ss)) v)"
  by (induction ss arbitrary: d) (auto simp: counter_get_update)

lemma counter_get_entry:
  "distinct (map fst d) \<Longrightarrow> (w, c) \<in> set d \<Longrightarrow> counter_get d w = c"
  by (simp add: counter_get_def)

lemma distinct_keys_Counter: "distinct (map fst (Counter ws))"
  by (simp add: Counter_def distinct_keys_counter_update)

lemma set_keys_Counter: "fst ` set (Counter ws) = set ws"
  by (simp add: Counter_def set_keys_counter_update)

lemma counter_get_Counter: "counter_get (Counter ws) v = int (count_list ws v)"
proof -
  have "counter_get [] v = 0" by (simp add: counter_get_def)
  then show ?thesis by (simp add: Counter_def counter_get_update)
qed

lemma Counter_entry_iff:
  "(w, c) \<in> set (Counter ws) \<longleftrightarrow> w \<in> set ws \<and> c = int (count_list ws w)"
proof
  assume h: "(w, c) \<in> set (Counter ws)"
  then have "w \<in> fst ` set (Counter ws)" by force
  then have "w \<in> set ws" by (simp add: set_keys_Counter)
  moreover have "c = int (count_list ws w)"
    using counter_get_entry [OF distinct_keys_Counter h] by (simp add: counter_get_Counter)
  ultimately show "w \<in> set ws \<and> c = int (count_list ws w)" by simp
next
  assume h: "w \<in> set ws \<and> c = int (count_list ws w)"
  then have "w \<in> fst ` set (Counter ws)" by (simp add: set_keys_Counter)
  then obtain c' where c': "(w, c') \<in> set (Counter ws)" by force
  have "c' = int (count_list ws w)"
    using counter_get_entry [OF distinct_keys_Counter c'] by (simp add: counter_get_Counter)
  with h c' show "(w, c) \<in> set (Counter ws)" by simp
qed

lemma count_values_Counter:
  "count_values k (Counter ws) = int (card {w \<in> set ws. int (count_list ws w) = k})"
proof -
  let ?d = "Counter ws"
  have dd: "distinct ?d" using distinct_keys_Counter [of ws] by (rule distinct_map [THEN iffD1, THEN conjunct1])
  have "length (filter (\<lambda>count. count = k) (map snd ?d)) = length (filter (\<lambda>p. snd p = k) ?d)"
    by (simp add: filter_map comp_def)
  also have "\<dots> = card ({p. snd p = k} \<inter> set ?d)"
    using dd by (rule distinct_length_filter)
  also have "{p. snd p = k} \<inter> set ?d = (\<lambda>w. (w, k)) ` {w \<in> set ws. int (count_list ws w) = k}"
    by (auto simp: Counter_entry_iff image_iff)
  also have "card \<dots> = card {w \<in> set ws. int (count_list ws w) = k}"
    by (rule card_image) (simp add: inj_on_def)
  finally show ?thesis by (simp add: count_values_def)
qed

lemma length_filter_keys:
  "distinct (map fst d) \<Longrightarrow>
     length (filter (\<lambda>(w, f). P w) d) = card {w \<in> fst ` set d. P w}"
proof -
  assume dk: "distinct (map fst d)"
  have "length (filter (\<lambda>(w, f). P w) d) = length (filter P (map fst d))"
    by (simp add: filter_map comp_def case_prod_unfold)
  also have "\<dots> = card ({w. P w} \<inter> set (map fst d))"
    using dk by (rule distinct_length_filter)
  also have "{w. P w} \<inter> set (map fst d) = {w \<in> fst ` set d. P w}" by auto
  finally show ?thesis .
qed

lemma length_py_sorted: "length (py_sorted key r xs) = length xs"
  by (simp add: py_sorted_def)

lemma set_py_sorted: "set (py_sorted key r xs) = set xs"
  by (simp add: py_sorted_def)

lemma mset_py_sorted: "mset (py_sorted key r xs) = mset xs"
  by (simp add: py_sorted_def)

lemma set_py_slice_to: "set (py_slice_to n xs) \<subseteq> set xs"
  by (auto simp: py_slice_to_def dest: in_set_takeD)

lemma sentence_score_Inr:
  "sentence_score tf freq s =
     Inr (if 0 < length (py_split s)
          then tf (of_int (sum_list (map (counter_get freq) (py_split s)))
                   / of_int (int (length (py_split s))))
          else of_int (sum_list (map (counter_get freq) (py_split s))))"
  by (simp add: sentence_score_def py_truediv_def Let_def)

lemma score_sentences_Inr:
  "score_sentences tf freq i ss =
     Inr (zip [i..<i + length ss] (map (\<lambda>s. projr (sentence_score tf freq s)) ss))"
proof (induction ss arbitrary: i)
  case Nil
  show ?case by simp
next
  case (Cons s ss)
  have "[i..<i + length (s # ss)] = i # [Suc i..<Suc i + length ss]"
    by (simp add: upt_rec)
  then show ?case
    by (simp add: Cons.IH sentence_score_Inr)
qed

lemma strict_sorted_fst_py_sorted:
  "distinct (map fst xs) \<Longrightarrow> sorted_wrt (<) (map fst (py_sorted fst False xs))"
proof -
  assume d: "distinct (map fst xs)"
  have "mset (map fst (sort_key fst xs)) = mset (map fst xs)" by simp
  then have "distinct (map fst (sort_key fst xs))"
    using d mset_eq_imp_distinct_iff by blast
  then show ?thesis
    by (simp add: py_sorted_def strict_sorted_iff sorted_sort_key)
qed

lemma distinct_fst_py_sorted:
  "distinct (map fst xs) \<Longrightarrow> distinct (map fst (py_sorted key r xs))"
proof -
  assume d: "distinct (map fst xs)"
  have "mset (map fst (py_sorted key r xs)) = mset (map fst xs)"
    by (simp add: mset_py_sorted)
  then show ?thesis using d mset_eq_imp_distinct_iff by blast
qed

lemma distinct_fst_py_slice_to:
  "distinct (map fst xs) \<Longrightarrow> distinct (map fst (py_slice_to n xs))"
  by (simp add: py_slice_to_def take_map [symmetric] distinct_take)

lemma sentence_scores_Inr:
  "sentence_scores tf sentences =
     Inr (zip [0..<length sentences]
            (map (\<lambda>s. projr (sentence_score tf
                    (count_sentences [] (map process_sentence sentences)) (process_sentence s)))
               sentences))"
  by (simp add: sentence_scores_def Let_def score_sentences_Inr comp_def)

lemma top_sentences_ordered:
  "\<exists>tops. top_sentences tf sentences n = Inr tops
      \<and> sorted_wrt (<) (map fst tops)
      \<and> (\<forall>i \<in> set (map fst tops). i < length sentences)
      \<and> length tops = (if 0 \<le> n then min (nat n) (length sentences)
                         else length sentences - nat (- n))"
proof -
  obtain scs where sc: "sentence_scores tf sentences = Inr scs"
    and fsts: "map fst scs = [0..<length sentences]"
    using sentence_scores_Inr [of tf sentences] by simp
  define sel where "sel = py_slice_to n (py_sorted snd True scs)"
  define tops where "tops = py_sorted fst False sel"
  have eq: "top_sentences tf sentences n = Inr tops"
    by (simp add: top_sentences_def sc tops_def sel_def)
  have "distinct (map fst scs)" using fsts by simp
  then have dsel: "distinct (map fst sel)"
    unfolding sel_def by (intro distinct_fst_py_slice_to distinct_fst_py_sorted)
  then have srt: "sorted_wrt (<) (map fst tops)"
    unfolding tops_def by (rule strict_sorted_fst_py_sorted)
  have "set tops \<subseteq> set scs"
    using set_py_slice_to [of n "py_sorted snd True scs"]
    by (simp add: tops_def sel_def set_py_sorted)
  then have "fst ` set tops \<subseteq> fst ` set scs" by (rule image_mono)
  moreover have "fst ` set scs = {0..<length sentences}"
    using fsts by (metis set_map set_upt)
  ultimately have "\<forall>i \<in> set (map fst tops). i < length sentences"
    by auto
  moreover have "length scs = length sentences"
    using fsts by (metis length_map length_upt minus_nat.diff_0)
  then have "length tops = (if 0 \<le> n then min (nat n) (length sentences)
                         else length sentences - nat (- n))"
    by (simp add: tops_def sel_def length_py_sorted py_slice_to_def min.commute)
  ultimately show ?thesis using eq srt by blast
qed

lemma map_nth_fst: "map (\<lambda>(i, _). ss ! i) tops = map ((!) ss) (map fst tops)"
  by (induction tops) auto

lemma fallback_summarize_selection:
  "\<exists>idxs. ordered_selection (split_into_sentences text) idxs
     \<and> length idxs = (if 0 \<le> n then min (nat n) (length (split_into_sentences text))
                       else length (split_into_sentences text) - nat (- n))
     \<and> fallback_summarize tf text n
           = Inr (py_join '' '' (select (split_into_sentences text) idxs))"
proof (cases "int (length (split_into_sentences text)) \<le> n")
  case True
  define ss where "ss = split_into_sentences text"
  have "fallback_summarize tf text n = Inr (py_join '' '' (select ss [0..<length ss]))"
    using True by (simp add: fallback_summarize_def Let_def select_def map_nth ss_def)
  moreover have "ordered_selection ss [0..<length ss]"
    by (simp add: ordered_selection_def list_all_iff)
  moreover have "length [0..<length ss] = (if 0 \<le> n then min (nat n) (length ss)
                       else length ss - nat (- n))"
    using True by (auto simp: ss_def)
  ultimately show ?thesis unfolding ss_def by blast
next
  case False
  define ss where "ss = split_into_sentences text"
  obtain tops where t: "top_sentences tf ss n = Inr tops"
    "sorted_wrt (<) (map fst tops)" "\<forall>i \<in> set (map fst tops). i < length ss"
    "length tops = (if 0 \<le> n then min (nat n) (length ss) else length ss - nat (- n))"
    using top_sentences_ordered [of tf ss n] by blast
  have "fallback_summarize tf text n = Inr (py_join '' '' (map (\<lambda>(i, _). ss ! i) tops))"
    using False t(1) by (simp add: fallback_summarize_def Let_def ss_def)
  then have "fallback_summarize tf text n = Inr (py_join '' '' (select ss (map fst tops)))"
    by (simp only: map_nth_fst select_def)
  moreover have "ordered_selection ss (map fst tops)"
    using t(2,3) by (simp add: ordered_selection_def list_all_iff)
  moreover have "length (map fst tops) = (if 0 \<le> n then min (nat n) (length ss)
                       else length ss - nat (- n))"
    using t(4) by simp
  ultimately show ?thesis unfolding ss_def by blast
qed

lemma distinct_fst_take:
  "distinct (map fst xs) \<Longrightarrow> distinct (map fst (take k xs))"
  by (simp add: take_map [symmetric] distinct_take)

lemma lsa_summarize_selection:
  assumes "lsa_summarize segment decompose text n = Inr summary"
  shows "\<exists>idxs. ordered_selection (segment text) idxs \<and> summary = select (segment text) idxs"
proof (cases "int (length (segment text)) \<le> n")
  case True
  define ss where "ss = segment text"
  have "summary = select ss [0..<length ss]"
    using assms True by (simp add: lsa_summarize_def Let_def select_def map_nth ss_def)
  moreover have "ordered_selection ss [0..<length ss]"
    by (simp add: ordered_selection_def list_all_iff)
  ultimately show ?thesis unfolding ss_def by blast
next
  case False
  define ss where "ss = segment text"
  obtain importance where imp: "decompose ss = Inr importance"
    using assms False by (cases "decompose ss") (simp_all add: lsa_summarize_def Let_def ss_def)
  define scored where "scored = map (\<lambda>i. (i, importance i)) [0..<length ss]"
  define best where "best = take (nat n) (py_sorted snd True scored)"
  define in_order where "in_order = py_sorted fst False best"
  have "summary = map (\<lambda>(i, _). ss ! i) in_order"
    using assms False imp
    by (simp add: lsa_summarize_def Let_def in_order_def best_def scored_def flip: ss_def)
  then have sm: "summary = select ss (map fst in_order)"
    by (simp only: map_nth_fst select_def)
  have fsts: "map fst scored = [0..<length ss]"
    by (simp add: scored_def comp_def)
  then have "distinct (map fst scored)" by simp
  then have "distinct (map fst best)"
    unfolding best_def by (intro distinct_fst_take distinct_fst_py_sorted)
  then have srt: "sorted_wrt (<) (map fst in_order)"
    unfolding in_order_def by (rule strict_sorted_fst_py_sorted)
  have "set in_order \<subseteq> set scored"
    using set_take_subset [of "nat n" "py_sorted snd True scored"]
    by (simp add: in_order_def best_def set_py_sorted)
  then have "fst ` set in_order \<subseteq> fst ` set scored" by (rule image_mono)
  moreover have "fst ` set scored = {0..<length ss}"
    using fsts by (metis set_map set_upt)
  ultimately have "\<forall>i \<in> set (map fst in_order). i < length ss" by auto
  with srt have "ordered_selection ss (map fst in_order)"
    by (simp add: ordered_selection_def list_all_iff)
  with sm show ?thesis unfolding ss_def by blast
qed

lemma not_upper_space: "is_space c \<Longrightarrow> \<not> is_upper c"
  by (auto simp: is_space_def is_upper_def less_eq_char_def)

lemma split_ws_spaces: "\<forall>c \<in> set cs. is_space c \<Longrightarrow> split_ws [] cs = []"
  by (induction cs) auto

lemma lower_spaces: "\<forall>c \<in> set s. is_space c \<Longrightarrow> lower s = s"
  by (simp add: lower_def lower_char_def not_upper_space map_idI)

lemma strip_punct_spaces: "\<forall>c \<in> set s. is_space c \<Longrightarrow> strip_punct s = s"
  by (simp add: strip_punct_def)

lemma topic_words_spaces: "\<forall>c \<in> set text. is_space c \<Longrightarrow> topic_words text = []"
  by (simp add: topic_words_def lower_spaces strip_punct_spaces py_split_def split_ws_spaces)

lemma py_strip_spaces: "\<forall>c \<in> set s. is_space c \<Longrightarrow> py_strip s = []"
proof -
  assume "\<forall>c \<in> set s. is_space c"
  then have d: "dropWhile is_space s = []" by (induction s) auto
  show ?thesis unfolding py_strip_def d by simp
qed

lemma re_split_sentences_chars:
  "set (concat (re_split_sentences prev cur cs)) \<subseteq> set cur \<union> set cs"
proof (induction cs arbitrary: prev cur)
  case Nil
  show ?case by simp
next
  case (Cons c cs)
  show ?case
  proof (cases "is_boundary prev c")
    case True
    then show ?thesis using Cons.IH [of "c # prev" "[]"] by auto
  next
    case False
    then show ?thesis using Cons.IH [of "c # prev" "c # cur"] by auto
  qed
qed

lemma split_into_sentences_spaces:
  assumes "\<forall>c \<in> set text. is_space c"
  shows "split_into_sentences text = []"
proof -
  have "\<forall>s \<in> set (re_split_sentences [] [] text). py_strip s = []"
  proof
    fix s assume s: "s \<in> set (re_split_sentences [] [] text)"
    have "set s \<subseteq> set (concat (re_split_sentences [] [] text))" using s by auto
    moreover have "set (concat (re_split_sentences [] [] text)) \<subseteq> set text"
      using re_split_sentences_chars [of "[]" "[]" "text"] by simp
    ultimately have "\<forall>c \<in> set s. is_space c" using assms by blast
    then show "py_strip s = []" by (rule py_strip_spaces)
  qed
  then have "filter (\<lambda>s. py_strip s \<noteq> []) (re_split_sentences [] [] text) = []"
    by (simp add: filter_empty_conv)
  then show ?thesis by (simp add: split_into_sentences_def)
qed

lemma set_most_common: "set (most_common n d) \<subseteq> set d"
  using set_take_subset [of "nat n" "py_sorted snd True d"]
  by (simp add: most_common_def set_py_sorted)

lemma length_most_common: "length (most_common n d) = min (nat n) (length d)"
  by (simp add: most_common_def length_py_sorted min.commute)

lemma extract_topics_subset:
  "set (extract_topics text k) \<subseteq> {w \<in> set (topic_words text). qualifies w}"
proof
  fix w assume "w \<in> set (extract_topics text k)"
  then obtain f where
    "(w, f) \<in> set (most_common k (filter (\<lambda>(word, freq). qualifies word) (Counter (topic_words text))))"
    by (auto simp: extract_topics_def Let_def)
  then have "(w, f) \<in> set (filter (\<lambda>(word, freq). qualifies word) (Counter (topic_words text)))"
    using set_most_common by blast
  then show "w \<in> {w \<in> set (topic_words text). qualifies w}"
    by (auto simp: Counter_entry_iff)
qed

lemma length_extract_topics:
  "length (extract_topics text k)
     = min (nat k) (card {w \<in> set (topic_words text). qualifies w})"
proof -
  have "distinct (map fst (Counter (topic_words text)))" by (rule distinct_keys_Counter)
  then have "length (filter (\<lambda>(word, freq). qualifies word) (Counter (topic_words text)))
      = card {w \<in> fst ` set (Counter (topic_words text)). qualifies w}"
    by (rule length_filter_keys)
  then show ?thesis
    by (simp add: extract_topics_def Let_def length_most_common set_keys_Counter)
qed

lemma sentence_score_spec:
  "sentence_score tf (count_sentences [] (map process_sentence sentences)) (process_sentence s)
     = Inr (score_spec tf sentences s)"
proof -
  have "counter_get (count_sentences [] (map process_sentence sentences)) t
          = global_frequency sentences t" for t
  proof -
    have "counter_get [] t = 0" by (simp add: counter_get_def)
    moreover have "map py_split (map process_sentence sentences) = map normalized_tokens sentences"
      by (simp add: normalized_tokens_def process_sentence_def)
    ultimately show ?thesis
      by (simp only: counter_get_count_sentences global_frequency_def)
  qed
  then have freq: "counter_get (count_sentences [] (map process_sentence sentences))
          = global_frequency sentences"
    by (rule ext)
  have toks: "py_split (process_sentence s) = normalized_tokens s"
    by (simp add: normalized_tokens_def process_sentence_def)
  show ?thesis
    by (simp add: sentence_score_Inr score_spec_def Let_def freq toks)
qed

section \<open>Properties of the summarizer\<close>

text \<open>
  C1. Order preservation. For every text and every count, the summary of
  \<^verbatim>\<open>fallback_summarize\<close> is the join of the segmented sentences at strictly increasing
  positions, so no selected sentence comes out ahead of one that precedes it in the
  document. The same holds of \<^verbatim>\<open>summarize_text\<close> with the primary strategy as the
  specification describes it, for every segmentation and every decomposition of the
  library: the summary is in document order of the library's sentences when the
  primary strategy returns, and of the fallback's sentences when it fails.
\<close>

theorem summaries_keep_document_order:
  "(\<exists>idxs. ordered_selection (split_into_sentences text) idxs
      \<and> fallback_summarize to_float text n
          = Inr (py_join '' '' (select (split_into_sentences text) idxs)))
   \<and> (\<exists>idxs.
        ordered_selection
          (if isl (lsa_summarize segment decompose text n)
           then split_into_sentences text else segment text) idxs
        \<and> summarize_text (lsa_summarize segment decompose) to_float text n
            = Inr (py_join '' ''
                (select (if isl (lsa_summarize segment decompose text n)
                         then split_into_sentences text else segment text) idxs)))"
proof -
  have fb: "\<exists>idxs. ordered_selection (split_into_sentences text) idxs
            \<and> fallback_summarize to_float text n
                = Inr (py_join '' '' (select (split_into_sentences text) idxs))"
    using fallback_summarize_selection [of "text" n to_float] by blast
  have "\<exists>idxs.
        ordered_selection
          (if isl (lsa_summarize segment decompose text n)
           then split_into_sentences text else segment text) idxs
        \<and> summarize_text (lsa_summarize segment decompose) to_float text n
            = Inr (py_join '' ''
                (select (if isl (lsa_summarize segment decompose text n)
                         then split_into_sentences text else segment text) idxs))"
  proof (cases "lsa_summarize segment decompose text n")
    case (Inl e)
    then have "summarize_text (lsa_summarize segment decompose) to_float text n
                 = fallback_summarize to_float text n"
      by (simp add: summarize_text_def)
    with fb Inl show ?thesis by simp
  next
    case (Inr summary)
    then obtain idxs where
      "ordered_selection (segment text) idxs" "summary = select (segment text) idxs"
      using lsa_summarize_selection by blast
    moreover have "summarize_text (lsa_summarize segment decompose) to_float text n
                     = Inr (py_join '' '' summary)"
      using Inr by (simp add: summarize_text_def)
    ultimately show ?thesis using Inr by auto
  qed
  with fb show ?thesis by blast
qed

theorem summaries_keep_document_order_witness:
  "((\<exists>idxs. ordered_selection (split_into_sentences ''A dog. The cat sat. The cat ran.'') idxs
       \<and> fallback_summarize id ''A dog. The cat sat. The cat ran.'' 2
           = Inr (py_join '' ''
               (select (split_into_sentences ''A dog. The cat sat. The cat ran.'') idxs)))
    \<and> (\<exists>idxs.
         ordered_selection
           (if isl (lsa_summarize split_into_sentences (\<lambda>ss. Inr rat_of_nat)
                      ''A dog. The cat sat. The cat ran.'' 2)
            then split_into_sentences ''A dog. The cat sat. The cat ran.''
            else split_into_sentences ''A dog. The cat sat. The cat ran.'') idxs
         \<and> summarize_text (lsa_summarize split_into_sentences (\<lambda>ss. Inr rat_of_nat)) id
              ''A dog. The cat sat. The cat ran.'' 2
             = Inr (py_join '' ''
                 (select
                   (if isl (lsa_summarize split_into_sentences (\<lambda>ss. Inr rat_of_nat)
                              ''A dog. The cat sat. The cat ran.'' 2)
                    then split_into_sentences ''A dog. The cat sat. The cat ran.''
                    else split_into_sentences ''A dog. The cat sat. The cat ran.'') idxs))))
   \<and> summarize_text (lsa_summarize split_into_sentences (\<lambda>ss. Inr rat_of_nat)) id
        ''A dog. The cat sat. The cat ran.'' 2 = Inr ''The cat sat. The cat ran.''
   \<and> summarize_text (lsa_summarize split_into_sentences (\<lambda>ss. Inl LibraryError)) id
        ''The cat sat. A dog. The cat ran.'' 2 = Inr ''The cat sat. The cat ran.''"
proof -
  have "summarize_text (lsa_summarize split_into_sentences (\<lambda>ss. Inr rat_of_nat)) id
        ''A dog. The cat sat. The cat ran.'' 2 = Inr ''The cat sat. The cat ran.''"
    by code_simp
  moreover have "summarize_text (lsa_summarize split_into_sentences (\<lambda>ss. Inl LibraryError)) id
        ''The cat sat. A dog. The cat ran.'' 2 = Inr ''The cat sat. The cat ran.''"
    by code_simp
  ultimately show ?thesis
    using summaries_keep_document_order
      [of "''A dog. The cat sat. The cat ran.''" id 2 split_into_sentences
          "\<lambda>ss. Inr rat_of_nat"]
    by blast
qed

text \<open>
  C2. Small input. When the segmenter yields at most \<open>n\<close> sentences (\<open>n \<ge> 1\<close>),
  \<^verbatim>\<open>fallback_summarize\<close> returns all of them, in order, joined by single spaces; no
  score is computed, so the result does not depend on the arithmetic.
\<close>

theorem fallback_small_input:
  "1 \<le> n \<Longrightarrow> int (length (split_into_sentences text)) \<le> n \<Longrightarrow>
     fallback_summarize to_float text n = Inr (py_join '' '' (split_into_sentences text))"
  by (simp add: fallback_summarize_def Let_def)

theorem fallback_small_input_witness:
  "(1::int) \<le> 3
   \<and> int (length (split_into_sentences ''Hello world. Hello again! Goodbye world.'')) \<le> 3
   \<and> fallback_summarize id ''Hello world. Hello again! Goodbye world.'' 3
       = Inr ''Hello world. Hello again! Goodbye world.''"
proof -
  have h1: "(1::int) \<le> 3" by simp
  have h2: "int (length (split_into_sentences ''Hello world. Hello again! Goodbye world.'')) \<le> 3"
    by code_simp
  have j: "py_join '' '' (split_into_sentences ''Hello world. Hello again! Goodbye world.'')
             = ''Hello world. Hello again! Goodbye world.''"
    by code_simp
  show ?thesis
    using h1 h2 fallback_small_input [OF h1 h2, of id] by (simp only: j simp_thms)
qed

text \<open>
  C5. Scoring. The scores computed by \<^verbatim>\<open>fallback_summarize\<close> are, sentence by sentence
  from index 0, the sum of the global frequencies of the sentence's normalized tokens
  divided by the number of those tokens, the division taking place only when that
  number is positive; a sentence without tokens has score 0. The division never
  raises: \<^verbatim>\<open>fallback_summarize\<close> returns a summary on every input.
\<close>

theorem fallback_scores_guarded:
  "sentence_scores to_float sentences
     = Inr (zip [0..<length sentences] (map (score_spec to_float sentences) sentences))
   \<and> (normalized_tokens s = [] \<longrightarrow> score_spec to_float sentences s = 0)
   \<and> (\<exists>summary. fallback_summarize to_float text n = Inr summary)"
proof -
  have "sentence_scores to_float sentences
     = Inr (zip [0..<length sentences] (map (score_spec to_float sentences) sentences))"
    by (simp add: sentence_scores_Inr sentence_score_spec)
  moreover have "normalized_tokens s = [] \<longrightarrow> score_spec to_float sentences s = 0"
    by (simp add: score_spec_def)
  moreover have "\<exists>summary. fallback_summarize to_float text n = Inr summary"
    using fallback_summarize_selection [of "text" n to_float] by blast
  ultimately show ?thesis by blast
qed

theorem fallback_scores_guarded_witness:
  "sentence_scores id [''!!!'', ''No way.'', ''Yes way.'']
     = Inr [(0, 0), (1, 3 / 2), (2, 3 / 2)]
   \<and> normalized_tokens ''!!!'' = []
   \<and> score_spec id [''!!!'', ''No way.'', ''Yes way.''] ''!!!'' = 0
   \<and> (\<exists>summary. fallback_summarize id ''!!! No way. Yes way.'' 2 = Inr summary)"
proof -
  have t: "normalized_tokens ''!!!'' = []" by code_simp
  have z: "zip [0..<length [''!!!'', ''No way.'', ''Yes way.'']]
             (map (score_spec id [''!!!'', ''No way.'', ''Yes way.''])
                [''!!!'', ''No way.'', ''Yes way.''])
           = [(0, 0), (1, 3 / 2), (2, 3 / 2)]"
    by code_simp
  show ?thesis
    using t z
      fallback_scores_guarded [of id "[''!!!'', ''No way.'', ''Yes way.'']" "''!!!''"
         "''!!! No way. Yes way.''" 2]
    by simp
qed

section \<open>Properties of the topic extractor\<close>

text \<open>
  C3. Topic count. For \<open>k \<ge> 1\<close> the list returned by \<^verbatim>\<open>extract_topics\<close> has at most
  \<open>k\<close> entries, and exactly \<open>k\<close> when the text has at least \<open>k\<close> distinct
  normalized tokens that are not stop-words and are longer than 2 characters.
\<close>

theorem topic_count_bound:
  "1 \<le> k \<Longrightarrow>
     int (length (extract_topics text k)) \<le> k
     \<and> (k \<le> int (card {w \<in> set (topic_words text). qualifies w})
          \<longrightarrow> int (length (extract_topics text k)) = k)"
  by (auto simp: length_extract_topics)

theorem topic_count_bound_witness:
  "(1::int) \<le> 2
   \<and> 2 \<le> int (card {w \<in> set (topic_words ''The cat sat. The cat ran. The dog slept.''). qualifies w})
   \<and> int (length (extract_topics ''The cat sat. The cat ran. The dog slept.'' 2)) = 2"
proof -
  have h1: "(1::int) \<le> 2" by simp
  have h2: "2 \<le> int (card {w \<in> set (topic_words ''The cat sat. The cat ran. The dog slept.''). qualifies w})"
    by code_simp
  show ?thesis
    using h1 h2 topic_count_bound [OF h1, of "''The cat sat. The cat ran. The dog slept.''"]
    by blast
qed

text \<open>
  C4. Stop-word exclusion. For \<open>k \<ge> 1\<close> no topic returned by \<^verbatim>\<open>extract_topics\<close> is a
  stop-word and every topic is longer than 2 characters; when every normalized token
  of the text is a stop-word or has at most 2 characters, the topic list is empty.
\<close>

theorem topics_exclude_stop_words:
  "1 \<le> k \<Longrightarrow>
     (\<forall>t \<in> set (extract_topics text k). t \<notin> stop_words \<and> 2 < length t)
     \<and> ((\<forall>w \<in> set (topic_words text). w \<in> stop_words \<or> length w \<le> 2)
          \<longrightarrow> extract_topics text k = [])"
proof -
  have sub: "set (extract_topics text k) \<subseteq> {w \<in> set (topic_words text). qualifies w}"
    by (rule extract_topics_subset)
  then have "\<forall>t \<in> set (extract_topics text k). t \<notin> stop_words \<and> 2 < length t"
    by (auto simp: qualifies_def)
  moreover have "extract_topics text k = []"
    if "\<forall>w \<in> set (topic_words text). w \<in> stop_words \<or> length w \<le> 2"
  proof -
    have "{w \<in> set (topic_words text). qualifies w} = {}"
      using that by (auto simp: qualifies_def)
    with sub show ?thesis by simp
  qed
  ultimately show ?thesis by blast
qed

theorem topics_exclude_stop_words_witness:
  "(1::int) \<le> 3
   \<and> extract_topics ''The cat sat on the mat.'' 3 = [''cat'', ''sat'', ''mat'']
   \<and> list_all (\<lambda>t. t \<notin> stop_words \<and> 2 < length t)
         (extract_topics ''The cat sat on the mat.'' 3)
   \<and> list_all (\<lambda>w. w \<in> stop_words \<or> length w \<le> 2)
         (topic_words ''It is the an of to, we ok.'')
   \<and> extract_topics ''It is the an of to, we ok.'' 3 = []"
proof -
  have h1: "(1::int) \<le> 3" by simp
  have h2: "\<forall>w \<in> set (topic_words ''It is the an of to, we ok.''). w \<in> stop_words \<or> length w \<le> 2"
    by code_simp
  have e: "extract_topics ''The cat sat on the mat.'' 3 = [''cat'', ''sat'', ''mat'']"
    by code_simp
  have "\<forall>t \<in> set (extract_topics ''The cat sat on the mat.'' 3). t \<notin> stop_words \<and> 2 < length t"
    using topics_exclude_stop_words [OF h1, of "''The cat sat on the mat.''"] by blast
  moreover have "extract_topics ''It is the an of to, we ok.'' 3 = []"
    using h2 topics_exclude_stop_words [OF h1, of "''It is the an of to, we ok.''"] by blast
  ultimately show ?thesis
    using h1 h2 e by (simp only: list_all_iff simp_thms)
qed

section \<open>Empty input and invalid counts\<close>

text \<open>
  C6. Empty input. On a text that is empty or consists of whitespace only,
  \<^verbatim>\<open>split_into_sentences\<close> returns no sentence, \<^verbatim>\<open>extract_topics\<close> returns no topic for
  every \<open>k \<ge> 1\<close> and \<^verbatim>\<open>fallback_summarize\<close> returns the empty string for every
  \<open>n \<ge> 1\<close>; nothing is raised.
\<close>

theorem empty_input_empty_output:
  "\<forall>c \<in> set text. is_space c \<Longrightarrow> 1 \<le> k \<Longrightarrow> 1 \<le> n \<Longrightarrow>
     split_into_sentences text = []
     \<and> extract_topics text k = []
     \<and> fallback_summarize to_float text n = Inr ''''"
proof -
  assume sp: "\<forall>c \<in> set text. is_space c" and k: "1 \<le> k" and n: "1 \<le> n"
  have s: "split_into_sentences text = []" using sp by (rule split_into_sentences_spaces)
  have tw: "topic_words text = []" using sp by (rule topic_words_spaces)
  have "set (extract_topics text k) \<subseteq> {w \<in> set (topic_words text). qualifies w}"
    by (rule extract_topics_subset)
  also have "\<dots> = {}" by (simp add: tw)
  finally have t: "extract_topics text k = []" by simp
  have "fallback_summarize to_float text n = Inr ''''"
    using n by (simp add: fallback_summarize_def s)
  with s t show ?thesis by simp
qed

theorem empty_input_empty_output_witness:
  "list_all is_space '''' \<and> list_all is_space [CHR '' '', CHR 0x09, CHR 0x0A]
   \<and> (1::int) \<le> 5
   \<and> split_into_sentences '''' = [] \<and> extract_topics '''' 5 = []
   \<and> fallback_summarize id '''' 5 = Inr ''''
   \<and> split_into_sentences [CHR '' '', CHR 0x09, CHR 0x0A] = []
   \<and> extract_topics [CHR '' '', CHR 0x09, CHR 0x0A] 5 = []
   \<and> fallback_summarize id [CHR '' '', CHR 0x09, CHR 0x0A] 5 = Inr ''''"
proof -
  have h0: "\<forall>c \<in> set ''''. is_space c" by simp
  have h1: "\<forall>c \<in> set [CHR '' '', CHR 0x09, CHR 0x0A]. is_space c" by code_simp
  have h2: "(1::int) \<le> 5" by simp
  have l0: "list_all is_space ''''" by simp
  have l1: "list_all is_space [CHR '' '', CHR 0x09, CHR 0x0A]"
    using h1 by (simp only: list_all_iff)
  show ?thesis
    using l0 l1 h2
      empty_input_empty_output [OF h0 h2 h2, of id]
      empty_input_empty_output [OF h1 h2 h2, of id]
    by blast
qed

text \<open>
  C7, as the code has it. A count below 1 is not rejected. \<^verbatim>\<open>extract_topics\<close> returns
  the empty list. \<^verbatim>\<open>fallback_summarize\<close> returns a summary in document order: the
  empty string for the count 0 and, for a negative count \<open>n\<close>, as many sentences as
  the slice \<^verbatim>\<open>[:n]\<close> leaves, that is the number of sentences less \<open>- n\<close>.
\<close>

theorem invalid_counts_accepted:
  "n < 1 \<Longrightarrow> k < 1 \<Longrightarrow>
     extract_topics text k = []
     \<and> fallback_summarize to_float text 0 = Inr ''''
     \<and> (\<exists>idxs. ordered_selection (split_into_sentences text) idxs
           \<and> (n < 0 \<longrightarrow> length idxs = length (split_into_sentences text) - nat (- n))
           \<and> fallback_summarize to_float text n
               = Inr (py_join '' '' (select (split_into_sentences text) idxs)))"
proof -
  assume n: "n < 1" and k: "k < 1"
  have "extract_topics text k = []"
    using k by (simp add: extract_topics_def Let_def most_common_def)
  moreover have "fallback_summarize to_float text 0 = Inr ''''"
    using fallback_summarize_selection [of "text" 0 to_float]
    by (auto simp: select_def)
  moreover have "\<exists>idxs. ordered_selection (split_into_sentences text) idxs
           \<and> (n < 0 \<longrightarrow> length idxs = length (split_into_sentences text) - nat (- n))
           \<and> fallback_summarize to_float text n
               = Inr (py_join '' '' (select (split_into_sentences text) idxs))"
    using fallback_summarize_selection [of "text" n to_float] by auto
  ultimately show ?thesis by blast
qed

theorem invalid_counts_accepted_witness:
  "(- 1 :: int) < 1 \<and> (0 :: int) < 1
   \<and> extract_topics ''cat dog'' 0 = []
   \<and> fallback_summarize id ''One. Two.'' 0 = Inr ''''
   \<and> (\<exists>idxs. ordered_selection (split_into_sentences ''One. Two.'') idxs
         \<and> (- 1 < (0::int) \<longrightarrow> length idxs = length (split_into_sentences ''One. Two.'') - nat (- (- 1)))
         \<and> fallback_summarize id ''One. Two.'' (- 1)
             = Inr (py_join '' '' (select (split_into_sentences ''One. Two.'') idxs)))"
proof -
  have h1: "(- 1 :: int) < 1" by simp
  have h2: "(0 :: int) < 1" by simp
  show ?thesis
    using h1 h2 invalid_counts_accepted [OF h1 h2, of "''cat dog''" id]
      invalid_counts_accepted [OF h1 h2, of "''One. Two.''" id]
    by blast
qed

text \<open>
  C7, as stated, asks for an error on a count below 1. With the count 0
  \<^verbatim>\<open>fallback_summarize\<close> returns the empty string on a text of two sentences, with the
  count -1 it returns the first of them, and \<^verbatim>\<open>extract_topics\<close> returns the empty
  list on a text with two qualifying tokens.
\<close>

theorem invalid_counts_not_rejected:
  "fallback_summarize id ''One. Two.'' 0 = Inr ''''
   \<and> fallback_summarize id ''One. Two.'' (- 1) = Inr ''One.''
   \<and> extract_topics ''cat dog'' 0 = []"
  by code_simp

section \<open>Concrete scenarios\<close>

text \<open>
  C8. On the text \<^verbatim>\<open>The cat sat. The cat ran. The dog slept. The cat sat again today.\<close>
  \<^verbatim>\<open>extract_topics\<close> with 2 topics returns \<^verbatim>\<open>cat\<close> then \<^verbatim>\<open>sat\<close>: after normalization
  \<^verbatim>\<open>the\<close> occurs 4 times and is a stop-word, \<^verbatim>\<open>cat\<close> occurs 3 times, \<^verbatim>\<open>sat\<close> twice and
  every other token once.
\<close>

theorem extract_topics_cat_sat:
  "extract_topics ''The cat sat. The cat ran. The dog slept. The cat sat again today.'' 2
     = [''cat'', ''sat'']"
  by code_simp

text \<open>
  C9. On the text \<^verbatim>\<open>Hello world. Hello again! Goodbye world.\<close> \<^verbatim>\<open>analyze_text\<close> counts
  6 words and 3 sentences, 2 distinct words occurring exactly twice, none occurring
  exactly three times and none occurring exactly four times.
\<close>

theorem analyze_text_hello_world:
  "total_words (analyze_text ''Hello world. Hello again! Goodbye world.'') = 6
   \<and> total_sentences (analyze_text ''Hello world. Hello again! Goodbye world.'') = 3
   \<and> single_word_repeated (analyze_text ''Hello world. Hello again! Goodbye world.'') = 2
   \<and> double_word_repeated (analyze_text ''Hello world. Hello again! Goodbye world.'') = 0
   \<and> triple_word_repeated (analyze_text ''Hello world. Hello again! Goodbye world.'') = 0"
  by code_simp

section \<open>Text statistics\<close>

text \<open>
  C10. \<^verbatim>\<open>analyze_text\<close> compares words after lower-casing only. The three repetition
  counters count the distinct lower-cased whitespace-separated words occurring
  exactly 2, 3 and 4 times. Punctuation stays in the word: in
  \<^verbatim>\<open>Hello world. Goodbye world\<close> the words \<^verbatim>\<open>world.\<close> and \<^verbatim>\<open>world\<close> differ, so no word
  occurs twice, while among the punctuation-stripped tokens one does.
\<close>

theorem analyze_text_keeps_punctuation:
  "analyze_words text = map lower (py_split text)
   \<and> single_word_repeated (analyze_text text)
       = int (card {w \<in> set (analyze_words text). count_list (analyze_words text) w = 2})
   \<and> double_word_repeated (analyze_text text)
       = int (card {w \<in> set (analyze_words text). count_list (analyze_words text) w = 3})
   \<and> triple_word_repeated (analyze_text text)
       = int (card {w \<in> set (analyze_words text). count_list (analyze_words text) w = 4})
   \<and> analyze_words ''Hello world. Goodbye world'' = [''hello'', ''world.'', ''goodbye'', ''world'']
   \<and> single_word_repeated (analyze_text ''Hello world. Goodbye world'') = 0
   \<and> count_values 2 (Counter (normalized_tokens ''Hello world. Goodbye world'')) = 1"
proof -
  have c: "count_values (int m) (Counter ws) = int (card {w \<in> set ws. count_list ws w = m})"
    for m and ws :: "string list"
    by (simp add: count_values_Counter)
  have "single_word_repeated (analyze_text text)
       = int (card {w \<in> set (analyze_words text). count_list (analyze_words text) w = 2})"
    using c [of 2 "analyze_words text"] by (simp add: analyze_text_def Let_def)
  moreover have "double_word_repeated (analyze_text text)
       = int (card {w \<in> set (analyze_words text). count_list (analyze_words text) w = 3})"
    using c [of 3 "analyze_words text"] by (simp add: analyze_text_def Let_def)
  moreover have "triple_word_repeated (analyze_text text)
       = int (card {w \<in> set (analyze_words text). count_list (analyze_words text) w = 4})"
    using c [of 4 "analyze_words text"] by (simp add: analyze_text_def Let_def)
  moreover have "analyze_words ''Hello world. Goodbye world''
      = [''hello'', ''world.'', ''goodbye'', ''world'']"
    by code_simp
  moreover have "single_word_repeated (analyze_text ''Hello world. Goodbye world'') = 0"
    by code_simp
  moreover have "count_values 2 (Counter (normalized_tokens ''Hello world. Goodbye world'')) = 1"
    by code_simp
  ultimately show ?thesis by (simp add: analyze_words_def)
qed

theorem analyze_text_keeps_punctuation_witness:
  "single_word_repeated (analyze_text ''Hello world. Goodbye world'')
       = int (card {w \<in> set (analyze_words ''Hello world. Goodbye world'').
                      count_list (analyze_words ''Hello world. Goodbye world'') w = 2})"
  using analyze_text_keeps_punctuation [of "''Hello world. Goodbye world''"] by blast

end
